theory Spec2Isabelle
  imports Main "HOL-Library.DAList" "HOL-Library.Sublist"
begin

section \<open>The pegboard pattern engine (store.ts, utils/coords.ts, types)\<close>

text \<open>
  Grid coordinates and board dimensions are JavaScript numbers that only ever hold
  integers here (the callers pass \<open>Math.floor\<close>/\<open>Math.round\<close> results); they are
  modelled as \<open>int\<close>. JavaScript prints such a number in plain decimal, with a leading
  minus sign when negative, as long as its magnitude is below \<open>10^21\<close>, and integers
  are exact up to \<open>2^53\<close>; the model is the code on that range.
  Strings are \<open>string\<close>; \<open>undefined\<close> is \<open>None\<close>.
\<close>

subsection \<open>utils/coords.ts: the coordinate codec\<close>

definition digit_char :: "nat \<Rightarrow> char" where
  "digit_char d = ''0123456789'' ! d"

fun digits :: "nat \<Rightarrow> string" where
  "digits n = (if n < 10 then [digit_char n] else digits (n div 10) @ [digit_char (n mod 10)])"

declare digits.simps [simp del]

text \<open>Template interpolation \<open>`${x}`\<close> of an integer-valued number.\<close>

definition numToString :: "int \<Rightarrow> string" where
  "numToString n = (if n < 0 then CHR ''-'' # digits (nat (- n)) else digits (nat n))"

text \<open>\<open>makeKey = (x, y) => `${x},${y}`\<close>\<close>

definition makeKey :: "int \<Rightarrow> int \<Rightarrow> string" where
  "makeKey x y = numToString x @ '','' @ numToString y"

text \<open>
  \<open>key.split(',')\<close>: the pieces between the separators; a string without a separator
  gives one piece (the empty string gives one empty piece). The result is never empty;
  the last case of the inner \<open>case\<close> is there for totality only.
\<close>

fun split_str :: "char \<Rightarrow> string \<Rightarrow> string list" where
  "split_str c [] = [[]]"
| "split_str c (x # xs) =
     (if x = c then [] # split_str c xs
      else (case split_str c xs of w # ws \<Rightarrow> (x # w) # ws | [] \<Rightarrow> [[x]]))"

definition digit_val :: "char \<Rightarrow> nat option" where
  "digit_val c = (let n = (of_char c :: nat) in if 48 \<le> n \<and> n \<le> 57 then Some (n - 48) else None)"

fun parse_digits :: "nat \<Rightarrow> string \<Rightarrow> nat option" where
  "parse_digits acc [] = Some acc"
| "parse_digits acc (c # cs) =
     (case digit_val c of None \<Rightarrow> None | Some d \<Rightarrow> parse_digits (10 * acc + d) cs)"

text \<open>
  \<open>Number(s)\<close> on the fragment the codec produces: an optional minus sign followed by
  one or more decimal digits gives \<open>Some\<close> of that integer. \<open>None\<close> stands for every
  other string: JavaScript yields \<open>NaN\<close> there, or the value of a literal form that
  is outside this fragment (empty or blank string, plus sign, fraction, exponent, radix
  prefix, \<open>Infinity\<close>).
\<close>

definition Number :: "string \<Rightarrow> int option" where
  "Number s =
     (case s of
        [] \<Rightarrow> None
      | c # cs \<Rightarrow>
          if c = CHR ''-'' then
            (if cs = [] then None else map_option (\<lambda>n. - int n) (parse_digits 0 cs))
          else map_option int (parse_digits 0 s))"

text \<open>
  \<open>parseKey = (key) => { const [x, y] = key.split(',').map(Number); return { x, y }; }\<close>.
  The object \<open>{x, y}\<close> is the pair; a missing second piece leaves \<open>y\<close> undefined,
  which is \<open>None\<close> as well.
\<close>

definition parseKey :: "string \<Rightarrow> int option \<times> int option" where
  "parseKey key =
     (case map Number (split_str CHR '','' key) of
        [] \<Rightarrow> (None, None)
      | [a] \<Rightarrow> (a, None)
      | a # b # _ \<Rightarrow> (a, b))"

subsection \<open>types: board, palette, pattern\<close>

text \<open>
  Of \<open>BoardSpec\<close> the engine reads \<open>cols\<close> and \<open>rows\<close> only; the other fields are
  physical dimensions in millimetres used by the renderers.
\<close>

record BoardSpec =
  cols :: int
  rows :: int

definition DEFAULT_BOARD :: BoardSpec where
  "DEFAULT_BOARD = \<lparr>cols = 30, rows = 30\<rparr>"

record PaletteColor =
  color_id :: string
  color_name :: string
  hex :: string

definition DEFAULT_PALETTE :: "PaletteColor list" where
  "DEFAULT_PALETTE =
     [\<lparr>color_id = ''red'', color_name = ''Red'', hex = ''#ef4444''\<rparr>,
      \<lparr>color_id = ''orange'', color_name = ''Orange'', hex = ''#f97316''\<rparr>,
      \<lparr>color_id = ''yellow'', color_name = ''Yellow'', hex = ''#eab308''\<rparr>,
      \<lparr>color_id = ''green'', color_name = ''Green'', hex = ''#22c55e''\<rparr>,
      \<lparr>color_id = ''blue'', color_name = ''Blue'', hex = ''#3b82f6''\<rparr>,
      \<lparr>color_id = ''purple'', color_name = ''Purple'', hex = ''#a855f7''\<rparr>,
      \<lparr>color_id = ''pink'', color_name = ''Pink'', hex = ''#ec4899''\<rparr>,
      \<lparr>color_id = ''white'', color_name = ''White'', hex = ''#f8fafc''\<rparr>,
      \<lparr>color_id = ''black'', color_name = ''Black'', hex = ''#1e293b''\<rparr>,
      \<lparr>color_id = ''brown'', color_name = ''Brown'', hex = ''#78350f''\<rparr>]"

datatype ToolType = Pencil | Eraser | FillTool | Line

datatype ViewMode = View2D | View3D | ViewXR

datatype Difficulty = Easy | Medium | Hard

record Metadata =
  title :: string
  author :: string
  difficulty :: Difficulty
  created :: int

type_synonym CellKey = string

text \<open>
  A \<open>Map<CellKey, string>\<close> holds its entries in insertion order under distinct keys:
  a distinct-key association list. \<open>Map.get\<close> is \<open>DAList.lookup\<close>, \<open>Map.set\<close> is
  \<open>DAList.update\<close> (an existing key keeps its place, a new one goes to the end) and
  \<open>Map.delete\<close> is \<open>DAList.delete\<close>. A \<open>Record<CellKey, string>\<close>, a plain object
  with string-valued own properties, has the same type; the place that integer-like
  property names take in the enumeration order of an object is not modelled, and every
  statement about a grid that went through a \<open>Record\<close> is about lookups.
\<close>

type_synonym CellMap = "(CellKey, string) alist"

record Pattern =
  pattern_id :: string
  pattern_metadata :: Metadata
  pattern_cells :: CellMap

subsection \<open>store.ts: the state and its Map objects\<close>

text \<open>
  The store holds references to \<open>Map\<close> objects: \<open>cells\<close> and the elements of
  \<open>history\<close> may be one and the same object (after \<open>undo\<close>, \<open>redo\<close> and every edit).
  The objects live in \<open>heap\<close>, a reference is an index into it, and allocation appends.
  The \<open>history\<close> array is a value: the code never changes an array it has published
  (\<open>slice\<close> copies, \<open>push\<close> is on the copy).
\<close>

type_synonym ref = nat

record AppState =
  board :: BoardSpec
  cells :: ref
  palette :: "PaletteColor list"
  metadata :: Metadata
  selectedColorId :: string
  activeTool :: ToolType
  showGrid :: bool
  viewMode :: ViewMode
  history :: "ref list"
  historyPointer :: nat
  heap :: "CellMap list"

text \<open>\<open>new Map(iterable)\<close> and \<open>Object.fromEntries(iterable)\<close>: one \<open>set\<close> (one property
  definition) per entry, in order, a later entry overriding an earlier one of the same key.\<close>

definition from_entries :: "(CellKey \<times> string) list \<Rightarrow> CellMap" where
  "from_entries es = foldl (\<lambda>m (k, v). DAList.update k v m) DAList.empty es"

text \<open>Iterating a \<open>Map\<close>, and \<open>Object.entries\<close>.\<close>

definition entries :: "CellMap \<Rightarrow> (CellKey \<times> string) list" where
  "entries m = DAList.impl_of m"

text \<open>\<open>const mapToRecord = (map) => Object.fromEntries(map)\<close>\<close>

definition mapToRecord :: "CellMap \<Rightarrow> CellMap" where
  "mapToRecord m = from_entries (entries m)"

text \<open>\<open>const recordToMap = (record) => new Map(Object.entries(record))\<close>\<close>

definition recordToMap :: "CellMap \<Rightarrow> CellMap" where
  "recordToMap r = from_entries (entries r)"

text \<open>Allocation of a new \<open>Map\<close> object with the given contents.\<close>

definition alloc :: "CellMap \<Rightarrow> CellMap list \<Rightarrow> ref \<times> CellMap list" where
  "alloc m h = (length h, h @ [m])"

text \<open>The contents of the live grid.\<close>

definition the_cells :: "AppState \<Rightarrow> CellMap" where
  "the_cells s = heap s ! cells s"

text \<open>
  The initial state of the store: \<open>cells: new Map()\<close> and \<open>history: [new Map()]\<close> are
  two objects. \<open>created: Date.now()\<close> is the parameter.
\<close>

definition initial_state :: "int \<Rightarrow> AppState" where
  "initial_state now =
     \<lparr>board = DEFAULT_BOARD,
      cells = 0,
      palette = DEFAULT_PALETTE,
      metadata = \<lparr>title = ''My Pattern'', author = ''Artist'', difficulty = Easy, created = now\<rparr>,
      selectedColorId = color_id (DEFAULT_PALETTE ! 0),
      activeTool = Pencil,
      showGrid = True,
      viewMode = View2D,
      history = [1],
      historyPointer = 0,
      heap = [DAList.empty, DAList.empty]\<rparr>"

subsection \<open>store.ts: the actions\<close>

text \<open>
  \<open>setCell\<close>. \<open>if (newVal)\<close> tests truthiness: \<open>undefined\<close> and the empty string both
  take the \<open>delete\<close> branch.
\<close>

definition setCell :: "AppState \<Rightarrow> int \<Rightarrow> int \<Rightarrow> AppState" where
  "setCell s x y =
     (let key = makeKey x y;
          currentVal = DAList.lookup (heap s ! cells s) key;
          newVal = (if activeTool s = Eraser then None else Some (selectedColorId s))
      in if currentVal = newVal then s
         else
           let (newCells, h1) = alloc (from_entries (entries (heap s ! cells s))) (heap s);
               h2 = (case newVal of
                       Some v \<Rightarrow>
                         if v \<noteq> [] then h1[newCells := DAList.update key v (h1 ! newCells)]
                         else h1[newCells := DAList.delete key (h1 ! newCells)]
                     | None \<Rightarrow> h1[newCells := DAList.delete key (h1 ! newCells)]);
               newHistory = take (historyPointer s + 1) (history s) @ [newCells]
           in s\<lparr>cells := newCells, history := newHistory,
                historyPointer := length newHistory - 1, heap := h2\<rparr>)"

text \<open>
  The loop of \<open>fill\<close>. \<open>queue\<close> is used as a stack (\<open>push\<close> and \<open>pop\<close> at the end of the
  array): the head of the list is the last element of the array, so the four pushes
  appear in reverse order. The loop works on the contents of the object \<open>newCells\<close>,
  which no one else refers to while it runs.
\<close>

function fill_loop ::
  "BoardSpec \<Rightarrow> string option \<Rightarrow> string \<Rightarrow> (int \<times> int) list \<Rightarrow> CellKey set \<Rightarrow> CellMap \<Rightarrow> CellMap"
where
  "fill_loop b targetColor sel [] visited newCells = newCells"
| "fill_loop b targetColor sel ((x, y) # queue) visited newCells =
     (if makeKey x y \<in> visited then fill_loop b targetColor sel queue visited newCells
      else if x < 0 \<or> x \<ge> cols b \<or> y < 0 \<or> y \<ge> rows b then
        fill_loop b targetColor sel queue visited newCells
      else if DAList.lookup newCells (makeKey x y) = targetColor then
        fill_loop b targetColor sel
          ((x, y - 1) # (x, y + 1) # (x - 1, y) # (x + 1, y) # queue)
          (insert (makeKey x y) visited)
          (DAList.update (makeKey x y) sel newCells)
      else fill_loop b targetColor sel queue visited newCells)"
  by pat_completeness auto

text \<open>
  Every turn of the loop takes one position off the queue, and the queue grows only
  when an in-bounds position that was not visited joins \<open>visited\<close>.
\<close>

termination fill_loop
proof (relation "measures
    [\<lambda>(b, t, sel, q, vis, m). card {p \<in> {0..<cols b} \<times> {0..<rows b}. makeKey (fst p) (snd p) \<notin> vis},
     \<lambda>(b, t, sel, q, vis, m). length q]", goal_cases)
  case 1
  show ?case by simp
next
  case 2
  show ?case by simp
next
  case 3
  show ?case by simp
next
  case (4 b targetColor sel x y queue visited newCells)
  let ?B = "{0..<cols b} \<times> {0..<rows b}"
  let ?k = "makeKey x y"
  have fin: "finite {p \<in> ?B. makeKey (fst p) (snd p) \<notin> visited}" by simp
  have mem: "(x, y) \<in> {p \<in> ?B. makeKey (fst p) (snd p) \<notin> visited}"
    using 4 by simp
  have "{p \<in> ?B. makeKey (fst p) (snd p) \<notin> insert ?k visited}
          \<subseteq> {p \<in> ?B. makeKey (fst p) (snd p) \<notin> visited} - {(x, y)}"
    by auto
  then have "card {p \<in> ?B. makeKey (fst p) (snd p) \<notin> insert ?k visited}
          \<le> card ({p \<in> ?B. makeKey (fst p) (snd p) \<notin> visited} - {(x, y)})"
    using fin by (intro card_mono) simp_all
  also have "\<dots> < card {p \<in> ?B. makeKey (fst p) (snd p) \<notin> visited}"
    using fin mem by (intro card_Diff1_less)
  finally show ?case by simp
next
  case 5
  show ?case by simp
qed

declare fill_loop.simps [simp del]

text \<open>\<open>fill\<close>: \<open>newCells = new Map(cells)\<close>, the loop on it, one history entry.\<close>

definition fill :: "AppState \<Rightarrow> int \<Rightarrow> int \<Rightarrow> AppState" where
  "fill s startX startY =
     (let targetKey = makeKey startX startY;
          targetColor = DAList.lookup (heap s ! cells s) targetKey
      in if targetColor = Some (selectedColorId s) then s
         else
           let (newCells, h1) = alloc (from_entries (entries (heap s ! cells s))) (heap s);
               h2 = h1[newCells := fill_loop (board s) targetColor (selectedColorId s)
                                     [(startX, startY)] {} (h1 ! newCells)];
               newHistory = take (historyPointer s + 1) (history s) @ [newCells]
           in s\<lparr>cells := newCells, history := newHistory,
                historyPointer := length newHistory - 1, heap := h2\<rparr>)"

definition clearBoard :: "AppState \<Rightarrow> AppState" where
  "clearBoard s =
     (let (newCells, h1) = alloc DAList.empty (heap s);
          newHistory = take (historyPointer s + 1) (history s) @ [newCells]
      in s\<lparr>cells := newCells, history := newHistory,
           historyPointer := length newHistory - 1, heap := h1\<rparr>)"

definition setColor :: "AppState \<Rightarrow> string \<Rightarrow> AppState" where
  "setColor s c = s\<lparr>selectedColorId := c\<rparr>"

definition setTool :: "AppState \<Rightarrow> ToolType \<Rightarrow> AppState" where
  "setTool s tool = s\<lparr>activeTool := tool\<rparr>"

definition setViewMode :: "AppState \<Rightarrow> ViewMode \<Rightarrow> AppState" where
  "setViewMode s mode = s\<lparr>viewMode := mode\<rparr>"

text \<open>
  \<open>undo\<close> and \<open>redo\<close> make \<open>cells\<close> refer to the object in the history array.
  \<open>history[newPointer]\<close> is in range whenever the pointer is a valid index, which
  holds in every state the actions reach (\<open>well_formed_run\<close> below).
\<close>

definition undo :: "AppState \<Rightarrow> AppState" where
  "undo s =
     (if historyPointer s > 0 then
        let newPointer = historyPointer s - 1
        in s\<lparr>cells := history s ! newPointer, historyPointer := newPointer\<rparr>
      else s)"

definition redo :: "AppState \<Rightarrow> AppState" where
  "redo s =
     (if historyPointer s < length (history s) - 1 then
        let newPointer = historyPointer s + 1
        in s\<lparr>cells := history s ! newPointer, historyPointer := newPointer\<rparr>
      else s)"

definition loadPattern :: "AppState \<Rightarrow> Pattern \<Rightarrow> AppState" where
  "loadPattern s pattern =
     (let (newCells, h1) = alloc (recordToMap (pattern_cells pattern)) (heap s)
      in s\<lparr>cells := newCells, metadata := pattern_metadata pattern,
           history := [newCells], historyPointer := 0, heap := h1\<rparr>)"

text \<open>\<open>exportPattern\<close> reads the state; \<open>uuidv4()\<close> and \<open>Date.now()\<close> are parameters.\<close>

definition exportPattern :: "AppState \<Rightarrow> string \<Rightarrow> int \<Rightarrow> Pattern" where
  "exportPattern s uuid now =
     \<lparr>pattern_id = uuid,
      pattern_metadata = (metadata s)\<lparr>created := now\<rparr>,
      pattern_cells = mapToRecord (heap s ! cells s)\<rparr>"

text \<open>
  The \<open>persist\<close> middleware stores \<open>partialize(state)\<close> and, when the store starts,
  merges a stored value into the state with \<open>merge\<close>. A stored value that lacks
  \<open>cells\<close> or \<open>metadata\<close> (they are tested for truthiness) is \<open>None\<close> here. This is
  no action of the store, and it is not part of the sequences of actions below.
\<close>

definition partialize :: "AppState \<Rightarrow> CellMap \<times> Metadata" where
  "partialize s = (mapToRecord (heap s ! cells s), metadata s)"

definition merge :: "CellMap option \<Rightarrow> Metadata option \<Rightarrow> AppState \<Rightarrow> AppState" where
  "merge persisted_cells persisted_metadata current =
     (let s1 = (case persisted_cells of
                  Some r \<Rightarrow>
                    let (newCells, h1) = alloc (recordToMap r) (heap current)
                    in current\<lparr>cells := newCells, heap := h1\<rparr>
                | None \<Rightarrow> current)
      in case persisted_metadata of
           Some md \<Rightarrow> s1\<lparr>metadata := md\<rparr>
         | None \<Rightarrow> s1)"

subsection \<open>Sequences of actions\<close>

datatype Action =
    SetCell int int
  | Fill int int
  | ClearBoard
  | SetColor string
  | SetTool ToolType
  | SetViewMode ViewMode
  | Undo
  | Redo
  | LoadPattern Pattern
  | ExportPattern string int

fun exec :: "Action \<Rightarrow> AppState \<Rightarrow> AppState" where
  "exec (SetCell x y) s = setCell s x y"
| "exec (Fill x y) s = fill s x y"
| "exec ClearBoard s = clearBoard s"
| "exec (SetColor c) s = setColor s c"
| "exec (SetTool t) s = setTool s t"
| "exec (SetViewMode m) s = setViewMode s m"
| "exec Undo s = undo s"
| "exec Redo s = redo s"
| "exec (LoadPattern p) s = loadPattern s p"
| "exec (ExportPattern uuid now) s = s"

fun run :: "Action list \<Rightarrow> AppState \<Rightarrow> AppState" where
  "run [] s = s"
| "run (a # as) s = run as (exec a s)"

fun is_edit :: "Action \<Rightarrow> bool" where
  "is_edit (SetCell x y) = True"
| "is_edit (Fill x y) = True"
| "is_edit ClearBoard = True"
| "is_edit a = False"

fun is_selection :: "Action \<Rightarrow> bool" where
  "is_selection (SetColor c) = True"
| "is_selection (SetTool t) = True"
| "is_selection a = False"

text \<open>
  A sequence of edits, each of which changes the state where it is applied (is not a
  no-op), with changes of the selected color and tool in between.
\<close>

fun effective_edits :: "AppState \<Rightarrow> Action list \<Rightarrow> bool" where
  "effective_edits s [] = True"
| "effective_edits s (a # as) =
     ((is_selection a \<or> (is_edit a \<and> exec a s \<noteq> s)) \<and> effective_edits (exec a s) as)"

subsection \<open>The notions the properties are stated with\<close>

definition in_bounds :: "BoardSpec \<Rightarrow> int \<times> int \<Rightarrow> bool" where
  "in_bounds b p = (0 \<le> fst p \<and> fst p < cols b \<and> 0 \<le> snd p \<and> snd p < rows b)"

definition key_of :: "int \<times> int \<Rightarrow> CellKey" where
  "key_of p = makeKey (fst p) (snd p)"

definition color_at :: "CellMap \<Rightarrow> int \<times> int \<Rightarrow> string option" where
  "color_at m p = DAList.lookup m (key_of p)"

definition neighbours :: "int \<times> int \<Rightarrow> (int \<times> int) list" where
  "neighbours p = [(fst p + 1, snd p), (fst p - 1, snd p), (fst p, snd p + 1), (fst p, snd p - 1)]"

text \<open>
  The 4-connected region of a start position: the in-bounds positions joined to it by a
  path of up/down/left/right steps through in-bounds positions of the start's color
  (\<open>None\<close> is the color of an empty cell).
\<close>

inductive_set region :: "BoardSpec \<Rightarrow> CellMap \<Rightarrow> int \<times> int \<Rightarrow> (int \<times> int) set"
  for b :: BoardSpec and m :: CellMap and start :: "int \<times> int"
where
  region_start: "in_bounds b start \<Longrightarrow> start \<in> region b m start"
| region_step: "p \<in> region b m start \<Longrightarrow> q \<in> set (neighbours p) \<Longrightarrow> in_bounds b q \<Longrightarrow>
     color_at m q = color_at m start \<Longrightarrow> q \<in> region b m start"

text \<open>
  What holds of the history in every state the actions reach: the pointer is an index
  of the history, no reference dangles, and the snapshot at the pointer has the
  contents of the live grid.
\<close>

definition well_formed :: "AppState \<Rightarrow> bool" where
  "well_formed s =
     (historyPointer s < length (history s) \<and>
      cells s < length (heap s) \<and>
      list_all (\<lambda>r. r < length (heap s)) (history s) \<and>
      heap s ! (history s ! historyPointer s) = heap s ! cells s)"

text \<open>
  The effect every edit has when it is not a no-op: a new object holding the grid \<open>m\<close>
  becomes the live grid and the last history entry, after the entries past the pointer
  are dropped.
\<close>

definition push_snapshot :: "AppState \<Rightarrow> CellMap \<Rightarrow> AppState" where
  "push_snapshot s m =
     s\<lparr>cells := length (heap s),
       history := take (historyPointer s + 1) (history s) @ [length (heap s)],
       historyPointer := length (take (historyPointer s + 1) (history s)),
       heap := heap s @ [m]\<rparr>"

text \<open>The value \<open>setCell\<close> aims at: the selected color, or no value when erasing.\<close>

definition target_value :: "AppState \<Rightarrow> string option" where
  "target_value s = (if activeTool s = Eraser then None else Some (selectedColorId s))"

text \<open>
  The invariant of the loop of \<open>fill\<close>, for the original grid \<open>m0\<close> and the set \<open>D\<close> of
  positions recolored so far: \<open>D\<close> lies in the region of the start, \<open>visited\<close> holds
  the keys of \<open>D\<close>, the grid is the original one with \<open>D\<close> recolored, every queued
  position is the start or next to a position of \<open>D\<close>, and every neighbour of \<open>D\<close> that
  could still be recolored is in \<open>D\<close> or in the queue.
\<close>

definition fill_inv ::
  "BoardSpec \<Rightarrow> CellMap \<Rightarrow> int \<times> int \<Rightarrow> string option \<Rightarrow> string \<Rightarrow> (int \<times> int) set \<Rightarrow>
   (int \<times> int) list \<Rightarrow> CellKey set \<Rightarrow> CellMap \<Rightarrow> bool"
where
  "fill_inv b m0 start t sel D queue visited m =
     (t = color_at m0 start \<and>
      D \<subseteq> region b m0 start \<and>
      visited = key_of ` D \<and>
      (\<forall>k. DAList.lookup m k = (if k \<in> key_of ` D then Some sel else DAList.lookup m0 k)) \<and>
      (\<forall>p \<in> set queue. p = start \<or> (\<exists>d \<in> D. p \<in> set (neighbours d))) \<and>
      (\<forall>d \<in> D. \<forall>n \<in> set (neighbours d).
         n \<in> D \<or> n \<in> set queue \<or> \<not> in_bounds b n \<or> color_at m0 n \<noteq> t) \<and>
      (start \<in> D \<or> start \<in> set queue \<or> \<not> in_bounds b start))"

subsection \<open>Concrete inputs\<close>

text \<open>
  A pattern with a key that is no coordinate pair and with a color that is not in the
  palette, a small board with one red cell and blue selected, and a sequence of
  edits each of which changes the grid or the history.
\<close>

definition malformed_pattern :: Pattern where
  "malformed_pattern =
     \<lparr>pattern_id = ''p1'',
      pattern_metadata = \<lparr>title = ''t'', author = ''a'', difficulty = Easy, created = 0\<rparr>,
      pattern_cells = from_entries [(''oops'', ''red''), (''0,0'', ''no-such-color''), (''1,1'', ''blue'')]\<rparr>"

definition example_state :: AppState where
  "example_state =
     run [SetCell 1 0, SetColor ''blue''] ((initial_state 0)\<lparr>board := \<lparr>cols = 2, rows = 2\<rparr>\<rparr>)"

definition example_edits :: "Action list" where
  "example_edits =
     [SetCell 0 0, SetColor ''blue'', Fill 0 0, SetTool Eraser, SetCell 0 0, ClearBoard]"

section \<open>The coordinate codec\<close>

lemma digit_val_digit_char: "d < 10 \<Longrightarrow> digit_val (digit_char d) = Some d"
proof -
  assume "d < 10"
  then have "d \<in> {0, 1, 2, 3, 4, 5, 6, 7, 8, 9}" by auto
  then show ?thesis by (auto simp: digit_val_def digit_char_def)
qed

lemma digit_char_not_sep: "d < 10 \<Longrightarrow> digit_char d \<noteq> CHR '',''  \<and> digit_char d \<noteq> CHR ''-''"
proof -
  assume d: "d < 10"
  have "digit_val CHR '','' = None" "digit_val CHR ''-'' = None"
    by (simp_all add: digit_val_def)
  with digit_val_digit_char [OF d] show ?thesis by auto
qed

lemma parse_digits_snoc:
  "d < 10 \<Longrightarrow> parse_digits acc (xs @ [digit_char d]) =
     (case parse_digits acc xs of None \<Rightarrow> None | Some a \<Rightarrow> Some (10 * a + d))"
  by (induction xs arbitrary: acc) (auto simp: digit_val_digit_char split: option.splits)

lemma parse_digits_digits: "parse_digits 0 (digits n) = Some n"
proof (induction n rule: digits.induct)
  case (1 n)
  show ?case
  proof (cases "n < 10")
    case True
    then show ?thesis by (subst digits.simps) (simp add: digit_val_digit_char)
  next
    case False
    with 1 have "parse_digits 0 (digits (n div 10)) = Some (n div 10)" by simp
    with False show ?thesis
      by (subst digits.simps) (simp add: parse_digits_snoc)
  qed
qed

lemma set_digits:
  "set (digits n) = (if n < 10 then {digit_char n} else insert (digit_char (n mod 10)) (set (digits (n div 10))))"
  by (subst digits.simps) simp

lemma digits_chars: "c \<in> set (digits n) \<Longrightarrow> c \<noteq> CHR '','' \<and> c \<noteq> CHR ''-''"
proof (induction n rule: digits.induct)
  case (1 n)
  have m: "n mod 10 < 10" by simp
  show ?case
  proof (cases "n < 10")
    case True
    with "1.prems" have "c = digit_char n" by (simp add: set_digits [of n])
    with True show ?thesis using digit_char_not_sep [of n] by simp
  next
    case False
    with "1.prems" have "c \<in> set (digits (n div 10)) \<or> c = digit_char (n mod 10)"
      by (simp add: set_digits [of n] disj_commute)
    then show ?thesis
    proof
      assume "c \<in> set (digits (n div 10))"
      with False "1.IH" show ?thesis by simp
    next
      assume "c = digit_char (n mod 10)"
      with m show ?thesis using digit_char_not_sep [of "n mod 10"] by simp
    qed
  qed
qed

lemma digits_nonempty: "digits n \<noteq> []"
  by (subst digits.simps) simp

lemma Number_numToString: "Number (numToString n) = Some n"
proof (cases "n < 0")
  case True
  then show ?thesis
    by (simp add: numToString_def Number_def digits_nonempty parse_digits_digits)
next
  case False
  obtain c cs where cs: "digits (nat n) = c # cs"
    using digits_nonempty [of "nat n"] by (cases "digits (nat n)") auto
  then have "c \<in> set (digits (nat n))" by simp
  then have "c \<noteq> CHR ''-''" using digits_chars [of c "nat n"] by simp
  moreover have "parse_digits 0 (c # cs) = Some (nat n)"
    using parse_digits_digits [of "nat n"] cs by simp
  ultimately show ?thesis using False cs
    by (simp add: numToString_def Number_def)
qed

lemma numToString_no_comma: "CHR '','' \<notin> set (numToString n)"
  using digits_chars [of "CHR '',''"] by (auto simp: numToString_def)

lemma split_str_none: "c \<notin> set xs \<Longrightarrow> split_str c xs = [xs]"
  by (induction xs) auto

lemma split_str_first: "c \<notin> set xs \<Longrightarrow> split_str c (xs @ c # ys) = xs # split_str c ys"
  by (induction xs) auto

lemma parseKey_makeKey: "parseKey (makeKey x y) = (Some x, Some y)"
  by (simp add: parseKey_def makeKey_def split_str_first split_str_none
      numToString_no_comma Number_numToString)

lemma makeKey_inj: "makeKey x y = makeKey x' y' \<Longrightarrow> x = x' \<and> y = y'"
proof -
  assume "makeKey x y = makeKey x' y'"
  then have "parseKey (makeKey x y) = parseKey (makeKey x' y')" by simp
  then show ?thesis by (simp add: parseKey_makeKey)
qed

lemma key_of_inj: "key_of p = key_of q \<Longrightarrow> p = q"
  using makeKey_inj [of "fst p" "snd p" "fst q" "snd q"] by (simp add: key_of_def prod_eq_iff)

text \<open>
  C9. Decoding an encoded key gives the position back: for all non-negative integers
  \<open>x\<close> and \<open>y\<close>, \<open>parseKey (makeKey x y)\<close> is the pair of \<open>x\<close> and \<open>y\<close>. The key is
  decimal \<open>x\<close>, a comma, decimal \<open>y\<close>.
\<close>

theorem codec_round_trip:
  "0 \<le> x \<Longrightarrow> 0 \<le> y \<Longrightarrow> parseKey (makeKey x y) = (Some x, Some y)"
  by (rule parseKey_makeKey)

theorem codec_round_trip_witness:
  "(0::int) \<le> 999 \<and> (0::int) \<le> 0 \<and> parseKey (makeKey 999 0) = (Some 999, Some 0)"
  using codec_round_trip [of 999 0] by simp

lemma makeKey_example: "makeKey 999 0 = ''999,0'' \<and> makeKey (- 1) 12 = ''-1,12''"
  by code_simp

section \<open>Maps, snapshots and the single actions\<close>

lemma AList_update_fresh: "k \<notin> fst ` set al \<Longrightarrow> AList.update k v al = al @ [(k, v)]"
  by (induction al) auto

lemma impl_of_foldl_update:
  "distinct (map fst (DAList.impl_of m @ es)) \<Longrightarrow>
   DAList.impl_of (foldl (\<lambda>m (k, v). DAList.update k v m) m es) = DAList.impl_of m @ es"
proof (induction es arbitrary: m)
  case Nil
  then show ?case by simp
next
  case (Cons e es)
  obtain k v where e: "e = (k, v)" by (cases e)
  from Cons.prems e have fresh: "k \<notin> fst ` set (DAList.impl_of m)" by auto
  have upd: "DAList.impl_of (DAList.update k v m) = DAList.impl_of m @ [(k, v)]"
    by (simp add: update.rep_eq AList_update_fresh [OF fresh])
  from Cons.prems e have "distinct (map fst (DAList.impl_of (DAList.update k v m) @ es))"
    by (simp add: upd)
  from Cons.IH [OF this] show ?case by (simp add: e upd)
qed

lemma from_entries_entries: "from_entries (entries m) = m"
proof -
  have "DAList.impl_of (from_entries (entries m)) = DAList.impl_of m"
    using impl_of_foldl_update [of DAList.empty "DAList.impl_of m"]
    by (simp add: from_entries_def entries_def empty.rep_eq)
  then show ?thesis by (rule alist_ext)
qed

lemma recordToMap_id: "recordToMap r = r"
  by (simp add: recordToMap_def from_entries_entries)

lemma mapToRecord_id: "mapToRecord m = m"
  by (simp add: mapToRecord_def from_entries_entries)

lemma setCell_noop:
  "DAList.lookup (the_cells s) (makeKey x y) = target_value s \<Longrightarrow> setCell s x y = s"
  by (simp add: setCell_def the_cells_def target_value_def Let_def)

lemma setCell_step:
  "DAList.lookup (the_cells s) (makeKey x y) \<noteq> target_value s \<Longrightarrow>
   setCell s x y = push_snapshot s
     (if activeTool s \<noteq> Eraser \<and> selectedColorId s \<noteq> []
      then DAList.update (makeKey x y) (selectedColorId s) (the_cells s)
      else DAList.delete (makeKey x y) (the_cells s))"
  by (simp add: setCell_def the_cells_def target_value_def Let_def alloc_def
      from_entries_entries push_snapshot_def)

lemma fill_noop:
  "DAList.lookup (the_cells s) (makeKey x y) = Some (selectedColorId s) \<Longrightarrow> fill s x y = s"
  by (simp add: fill_def the_cells_def Let_def)

lemma fill_step:
  "DAList.lookup (the_cells s) (makeKey x y) \<noteq> Some (selectedColorId s) \<Longrightarrow>
   fill s x y = push_snapshot s
     (fill_loop (board s) (DAList.lookup (the_cells s) (makeKey x y)) (selectedColorId s)
        [(x, y)] {} (the_cells s))"
  by (simp add: fill_def the_cells_def Let_def alloc_def from_entries_entries push_snapshot_def)

lemma clearBoard_step: "clearBoard s = push_snapshot s DAList.empty"
  by (simp add: clearBoard_def Let_def alloc_def push_snapshot_def)

lemma push_snapshot_neq: "push_snapshot s m \<noteq> s"
proof
  assume "push_snapshot s m = s"
  then have "length (heap (push_snapshot s m)) = length (heap s)" by simp
  then show False by (simp add: push_snapshot_def)
qed

lemma push_snapshot_simps:
  "cells (push_snapshot s m) = length (heap s)"
  "history (push_snapshot s m) = take (historyPointer s + 1) (history s) @ [length (heap s)]"
  "historyPointer (push_snapshot s m) = length (take (historyPointer s + 1) (history s))"
  "heap (push_snapshot s m) = heap s @ [m]"
  "the_cells (push_snapshot s m) = m"
  "board (push_snapshot s m) = board s"
  "selectedColorId (push_snapshot s m) = selectedColorId s"
  "activeTool (push_snapshot s m) = activeTool s"
  by (simp_all add: push_snapshot_def the_cells_def)

lemma edit_cases:
  "is_edit a \<Longrightarrow> exec a s = s \<or> (\<exists>m. exec a s = push_snapshot s m)"
proof (cases a)
  case (SetCell x y)
  then show ?thesis
    using setCell_noop [of s x y] setCell_step [of s x y] by (cases "DAList.lookup (the_cells s) (makeKey x y) = target_value s") auto
next
  case (Fill x y)
  then show ?thesis
    using fill_noop [of s x y] fill_step [of s x y]
    by (cases "DAList.lookup (the_cells s) (makeKey x y) = Some (selectedColorId s)") auto
next
  case ClearBoard
  then show ?thesis by (auto simp: clearBoard_step)
qed simp_all

lemma edit_changed: "is_edit a \<Longrightarrow> exec a s \<noteq> s \<Longrightarrow> \<exists>m. exec a s = push_snapshot s m"
  using edit_cases [of a s] by auto

lemma loadPattern_step:
  "loadPattern s p = s\<lparr>cells := length (heap s), metadata := pattern_metadata p,
      history := [length (heap s)], historyPointer := 0, heap := heap s @ [pattern_cells p]\<rparr>"
  by (simp add: loadPattern_def alloc_def recordToMap_id)

lemma well_formed_initial: "well_formed (initial_state now)"
  by (simp add: well_formed_def initial_state_def)

lemma well_formed_push: "well_formed s \<Longrightarrow> well_formed (push_snapshot s m)"
  by (auto simp: well_formed_def push_snapshot_def list_all_iff nth_append min_def
      dest!: in_set_takeD)

lemma well_formed_undo: "well_formed s \<Longrightarrow> well_formed (undo s)"
  by (auto simp: well_formed_def undo_def Let_def list_all_iff)

lemma well_formed_redo: "well_formed s \<Longrightarrow> well_formed (redo s)"
  by (auto simp: well_formed_def redo_def Let_def list_all_iff)

lemma well_formed_load: "well_formed (loadPattern s p)"
  by (simp add: well_formed_def loadPattern_step)

lemma well_formed_exec: "well_formed s \<Longrightarrow> well_formed (exec a s)"
proof (cases "is_edit a")
  case True
  assume wf: "well_formed s"
  from edit_cases [OF True, of s] show ?thesis
    using wf well_formed_push by auto
next
  case False
  assume wf: "well_formed s"
  with False show ?thesis
    by (cases a)
      (simp_all add: well_formed_undo well_formed_redo well_formed_load,
       simp_all add: well_formed_def setColor_def setTool_def setViewMode_def)
qed

lemma well_formed_run: "well_formed s \<Longrightarrow> well_formed (run as s)"
  by (induction as arbitrary: s) (simp_all add: well_formed_exec)

section \<open>History\<close>

text \<open>
  C5. In every state reached from the initial state by the actions, the pointer is an
  index of the history and the snapshot there has the contents of the live grid.
\<close>

theorem history_invariant:
  "historyPointer (run as (initial_state now)) < length (history (run as (initial_state now))) \<and>
   heap (run as (initial_state now))
     ! (history (run as (initial_state now)) ! historyPointer (run as (initial_state now)))
   = the_cells (run as (initial_state now))"
  using well_formed_run [OF well_formed_initial, of as now]
  by (simp add: well_formed_def the_cells_def)

text \<open>
  The invariant is one of the actions, not of the \<open>persist\<close> middleware: \<open>merge\<close>
  replaces the live grid and leaves the history alone, so that after a start from a
  stored non-empty grid the snapshot at the pointer is still the empty one.
\<close>

lemma merge_keeps_history:
  "history (merge pc pm s) = history s \<and> historyPointer (merge pc pm s) = historyPointer s"
  by (simp add: merge_def alloc_def Let_def split: option.splits)

lemma merge_example:
  "entries (the_cells (merge (Some (pattern_cells malformed_pattern)) None (initial_state 0)))
     = [(''oops'', ''red''), (''0,0'', ''no-such-color''), (''1,1'', ''blue'')] \<and>
   entries (heap (merge (Some (pattern_cells malformed_pattern)) None (initial_state 0))
     ! (history (merge (Some (pattern_cells malformed_pattern)) None (initial_state 0))
        ! historyPointer (merge (Some (pattern_cells malformed_pattern)) None (initial_state 0))))
     = []"
  by code_simp

text \<open>
  C4. After any number of \<open>undo\<close> calls, an edit that is not a no-op keeps the
  history entries up to the pointer, appends its snapshot and puts the pointer on it,
  so that a \<open>redo\<close> right after it changes nothing.
\<close>

theorem edit_discards_redo:
  "is_edit a \<Longrightarrow> exec a ((undo ^^ k) s) \<noteq> (undo ^^ k) s \<Longrightarrow>
   history (exec a ((undo ^^ k) s))
     = take (historyPointer ((undo ^^ k) s) + 1) (history ((undo ^^ k) s)) @ [cells (exec a ((undo ^^ k) s))] \<and>
   historyPointer (exec a ((undo ^^ k) s)) = length (history (exec a ((undo ^^ k) s))) - 1 \<and>
   redo (exec a ((undo ^^ k) s)) = exec a ((undo ^^ k) s)"
proof -
  assume "is_edit a" and "exec a ((undo ^^ k) s) \<noteq> (undo ^^ k) s"
  then obtain m where "exec a ((undo ^^ k) s) = push_snapshot ((undo ^^ k) s) m"
    using edit_changed by blast
  then show ?thesis
    by (simp add: push_snapshot_simps redo_def)
qed

theorem edit_discards_redo_witness:
  "is_edit (SetCell 2 2) \<and>
   exec (SetCell 2 2) ((undo ^^ 1) (run [SetCell 0 0, SetCell 1 0] (initial_state 0)))
     \<noteq> (undo ^^ 1) (run [SetCell 0 0, SetCell 1 0] (initial_state 0)) \<and>
   history (exec (SetCell 2 2) ((undo ^^ 1) (run [SetCell 0 0, SetCell 1 0] (initial_state 0)))) = [1, 2, 4] \<and>
   historyPointer (exec (SetCell 2 2) ((undo ^^ 1) (run [SetCell 0 0, SetCell 1 0] (initial_state 0)))) = 2 \<and>
   redo (exec (SetCell 2 2) ((undo ^^ 1) (run [SetCell 0 0, SetCell 1 0] (initial_state 0))))
     = exec (SetCell 2 2) ((undo ^^ 1) (run [SetCell 0 0, SetCell 1 0] (initial_state 0)))"
proof -
  have e: "is_edit (SetCell 2 2)" by simp
  have n: "exec (SetCell 2 2) ((undo ^^ 1) (run [SetCell 0 0, SetCell 1 0] (initial_state 0)))
     \<noteq> (undo ^^ 1) (run [SetCell 0 0, SetCell 1 0] (initial_state 0))"
    by code_simp
  have h: "history (exec (SetCell 2 2) ((undo ^^ 1) (run [SetCell 0 0, SetCell 1 0] (initial_state 0)))) = [1, 2, 4]"
    by code_simp
  show ?thesis using edit_discards_redo [OF e n] e n h by simp
qed

lemma run_append: "run (as @ bs) s = run bs (run as s)"
  by (induction as arbitrary: s) simp_all

lemma run_replicate_undo: "run (replicate n Undo) s = (undo ^^ n) s"
  by (induction n arbitrary: s) (simp_all add: funpow_swap1)

lemma run_replicate_redo: "run (replicate n Redo) s = (redo ^^ n) s"
  by (induction n arbitrary: s) (simp_all add: funpow_swap1)

lemma undo_fields:
  "0 < historyPointer s \<Longrightarrow>
   historyPointer (undo s) = historyPointer s - 1 \<and> history (undo s) = history s \<and>
   heap (undo s) = heap s \<and> cells (undo s) = history s ! (historyPointer s - 1)"
  by (simp add: undo_def Let_def)

lemma redo_fields:
  "historyPointer s < length (history s) - 1 \<Longrightarrow>
   historyPointer (redo s) = historyPointer s + 1 \<and> history (redo s) = history s \<and>
   heap (redo s) = heap s \<and> cells (redo s) = history s ! (historyPointer s + 1)"
  by (simp add: redo_def Let_def)

lemma undo_iter:
  "k \<le> historyPointer s \<Longrightarrow>
   historyPointer ((undo ^^ k) s) = historyPointer s - k \<and>
   history ((undo ^^ k) s) = history s \<and>
   heap ((undo ^^ k) s) = heap s \<and>
   cells ((undo ^^ k) s) = (if k = 0 then cells s else history s ! (historyPointer s - k))"
proof (induction k)
  case 0
  then show ?case by simp
next
  case (Suc k)
  then have "historyPointer ((undo ^^ k) s) = historyPointer s - k"
    and "history ((undo ^^ k) s) = history s" and "heap ((undo ^^ k) s) = heap s"
    by simp_all
  with Suc.prems undo_fields [of "(undo ^^ k) s"] show ?case by simp
qed

lemma redo_iter:
  "historyPointer s + k < length (history s) \<Longrightarrow>
   historyPointer ((redo ^^ k) s) = historyPointer s + k \<and>
   history ((redo ^^ k) s) = history s \<and>
   heap ((redo ^^ k) s) = heap s \<and>
   cells ((redo ^^ k) s) = (if k = 0 then cells s else history s ! (historyPointer s + k))"
proof (induction k)
  case 0
  then show ?case by simp
next
  case (Suc k)
  then have "historyPointer ((redo ^^ k) s) = historyPointer s + k"
    and "history ((redo ^^ k) s) = history s" and "heap ((redo ^^ k) s) = heap s"
    by simp_all
  with Suc.prems redo_fields [of "(redo ^^ k) s"] show ?case by simp
qed

lemma selection_fields:
  "is_selection a \<Longrightarrow>
   history (exec a s) = history s \<and> historyPointer (exec a s) = historyPointer s \<and>
   heap (exec a s) = heap s \<and> cells (exec a s) = cells s \<and> \<not> is_edit a"
  by (cases a) (simp_all add: setColor_def setTool_def)

lemma effective_run:
  "Suc (historyPointer s) = length (history s) \<Longrightarrow> effective_edits s as \<Longrightarrow>
   Suc (historyPointer (run as s)) = length (history (run as s)) \<and>
   length (history (run as s)) = length (history s) + length (filter is_edit as) \<and>
   prefix (history s) (history (run as s)) \<and>
   prefix (heap s) (heap (run as s)) \<and>
   (filter is_edit as = [] \<longrightarrow> cells (run as s) = cells s) \<and>
   (filter is_edit as \<noteq> [] \<longrightarrow> cells (run as s) = history (run as s) ! historyPointer (run as s))"
proof (induction as arbitrary: s)
  case Nil
  then show ?case by simp
next
  case (Cons a as)
  let ?s1 = "exec a s"
  let ?s' = "run as ?s1"
  from Cons.prems(2) have eff: "effective_edits ?s1 as"
    and a: "is_selection a \<or> (is_edit a \<and> ?s1 \<noteq> s)" by simp_all
  from a show ?case
  proof
    assume sel: "is_selection a"
    note f = selection_fields [OF sel, of s]
    from f Cons.prems(1) have top1: "Suc (historyPointer ?s1) = length (history ?s1)" by simp
    from Cons.IH [OF top1 eff] f show ?thesis by simp
  next
    assume "is_edit a \<and> ?s1 \<noteq> s"
    then have ed: "is_edit a" and "?s1 \<noteq> s" by simp_all
    then obtain m where m: "?s1 = push_snapshot s m" using edit_changed by blast
    from Cons.prems(1) have tk: "take (historyPointer s + 1) (history s) = history s" by simp
    have h1: "history ?s1 = history s @ [length (heap s)]"
      and p1: "historyPointer ?s1 = length (history s)"
      and hp1: "heap ?s1 = heap s @ [m]"
      and c1: "cells ?s1 = length (heap s)"
      using tk by (simp_all add: m push_snapshot_simps)
    have top1: "Suc (historyPointer ?s1) = length (history ?s1)" by (simp add: h1 p1)
    note IH = Cons.IH [OF top1 eff]
    from IH have len: "length (history ?s') = length (history s) + length (filter is_edit (a # as))"
      using ed by (simp add: h1)
    from IH have pre_h: "prefix (history s) (history ?s')"
      by (metis h1 prefix_order.trans prefixI)
    from IH have pre_m: "prefix (heap s) (heap ?s')"
      by (metis hp1 prefix_order.trans prefixI)
    have cl: "cells ?s' = history ?s' ! historyPointer ?s'"
    proof (cases "filter is_edit as = []")
      case True
      with IH have "cells ?s' = cells ?s1" and "length (history ?s') = length (history ?s1)"
        and "prefix (history ?s1) (history ?s')" and "Suc (historyPointer ?s') = length (history ?s')"
        by simp_all
      then have "history ?s' = history ?s1" and "historyPointer ?s' = historyPointer ?s1"
        and "cells ?s' = cells ?s1"
        using top1 by (auto simp: prefix_def)
      then show ?thesis by (simp add: h1 p1 c1)
    next
      case False
      with IH show ?thesis by simp
    qed
    from IH len pre_h pre_m cl ed show ?thesis by simp
  qed
qed

lemma prefix_nth: "prefix xs ys \<Longrightarrow> i < length xs \<Longrightarrow> ys ! i = xs ! i"
  by (auto simp: prefix_def nth_append)

text \<open>
  C3. After any sequence of edits on the fresh store, each of which is not a no-op
  (\<open>n\<close> of them, with changes of color and tool in between), \<open>n\<close> times \<open>undo\<close>
  gives the empty grid back and \<open>n\<close> times \<open>redo\<close> after that gives the final grid
  back; the pointer is an index of the history after every step of the whole sequence.
\<close>

theorem undo_redo_symmetry:
  assumes eff: "effective_edits (initial_state now) as"
    and n: "n = length (filter is_edit as)"
  shows "length (history (run as (initial_state now))) = n + 1 \<and>
    historyPointer (run as (initial_state now)) = n \<and>
    the_cells ((undo ^^ n) (run as (initial_state now))) = DAList.empty \<and>
    historyPointer ((undo ^^ n) (run as (initial_state now))) = 0 \<and>
    the_cells ((redo ^^ n) ((undo ^^ n) (run as (initial_state now))))
      = the_cells (run as (initial_state now)) \<and>
    historyPointer ((redo ^^ n) ((undo ^^ n) (run as (initial_state now)))) = n \<and>
    (\<forall>j. historyPointer (run (take j (as @ replicate n Undo @ replicate n Redo)) (initial_state now))
          < length (history (run (take j (as @ replicate n Undo @ replicate n Redo)) (initial_state now))))"
proof -
  let ?s0 = "initial_state now"
  let ?s1 = "run as ?s0"
  let ?s2 = "(undo ^^ n) ?s1"
  let ?s3 = "(redo ^^ n) ?s2"
  have top: "Suc (historyPointer ?s0) = length (history ?s0)"
    by (simp add: initial_state_def)
  have h0: "history ?s0 = [1]" and m0: "heap ?s0 = [DAList.empty, DAList.empty]"
    and c0: "cells ?s0 = 0"
    by (simp_all add: initial_state_def)
  note E = effective_run [OF top eff]
  from E n have len1: "length (history ?s1) = n + 1" by (simp add: h0)
  with E have p1: "historyPointer ?s1 = n" by simp
  from E have "prefix [1] (history ?s1)" by (simp add: h0)
  from prefix_nth [OF this, of 0] have hist0: "history ?s1 ! 0 = 1" by simp
  from E have pm: "prefix [DAList.empty, DAList.empty] (heap ?s1)" by (simp add: m0)
  from prefix_nth [OF pm, of 0] prefix_nth [OF pm, of 1]
  have heap0: "heap ?s1 ! 0 = DAList.empty" and heap1: "heap ?s1 ! 1 = DAList.empty"
    by simp_all
  have "n \<le> historyPointer ?s1" by (simp add: p1)
  note U = undo_iter [OF this]
  from U p1 have p2: "historyPointer ?s2 = 0" by simp
  from U have h2: "history ?s2 = history ?s1" and m2: "heap ?s2 = heap ?s1" by simp_all
  have c2: "the_cells ?s2 = DAList.empty"
  proof (cases "n = 0")
    case True
    with n E have "cells ?s1 = 0" by (simp add: c0)
    with True show ?thesis by (simp add: the_cells_def heap0)
  next
    case False
    with U p1 have "cells ?s2 = 1" by (simp add: hist0)
    then show ?thesis using heap1 by (simp add: the_cells_def m2)
  qed
  have "historyPointer ?s2 + n < length (history ?s2)" by (simp add: p2 h2 len1)
  note R = redo_iter [OF this]
  from R p2 have p3: "historyPointer ?s3 = n" by simp
  from R have m3: "heap ?s3 = heap ?s1" by (simp add: m2)
  have c3: "cells ?s3 = cells ?s1"
  proof (cases "n = 0")
    case True
    then show ?thesis by simp
  next
    case False
    with n have "filter is_edit as \<noteq> []" by simp
    with E have "cells ?s1 = history ?s1 ! n" by (simp add: p1)
    with R False show ?thesis by (simp add: p2 h2)
  qed
  have inv: "\<forall>j. historyPointer (run (take j (as @ replicate n Undo @ replicate n Redo)) ?s0)
          < length (history (run (take j (as @ replicate n Undo @ replicate n Redo)) ?s0))"
    using well_formed_run [OF well_formed_initial] by (simp add: well_formed_def)
  from len1 p1 c2 p2 c3 m3 p3 inv show ?thesis by (simp add: the_cells_def)
qed

theorem undo_redo_symmetry_witness:
  "effective_edits (initial_state 0) example_edits \<and>
   4 = length (filter is_edit example_edits) \<and>
   length (history (run example_edits (initial_state 0))) = 5 \<and>
   the_cells ((undo ^^ 4) (run example_edits (initial_state 0))) = DAList.empty \<and>
   the_cells ((redo ^^ 4) ((undo ^^ 4) (run example_edits (initial_state 0))))
      = the_cells (run example_edits (initial_state 0))"
proof -
  have e: "effective_edits (initial_state 0) example_edits" by code_simp
  have n: "4 = length (filter is_edit example_edits)" by code_simp
  from undo_redo_symmetry [OF e n] e n show ?thesis by simp
qed

section \<open>Snapshots are never changed in place\<close>

text \<open>
  C8. An edit never changes a \<open>Map\<close> object that existed before it: every reference
  valid before the edit (the live grid, the history entries) sees the same contents
  after it. An edit that is not a no-op installs a newly allocated object as the live
  grid.
\<close>

theorem published_snapshots_not_mutated:
  "is_edit a \<Longrightarrow> r < length (heap s) \<Longrightarrow>
   heap (exec a s) ! r = heap s ! r \<and>
   (exec a s = s \<or> (cells (exec a s) = length (heap s) \<and> length (heap (exec a s)) = length (heap s) + 1))"
proof -
  assume e: "is_edit a" and r: "r < length (heap s)"
  from edit_cases [OF e, of s] show ?thesis
  proof
    assume "exec a s = s"
    then show ?thesis by simp
  next
    assume "\<exists>m. exec a s = push_snapshot s m"
    then obtain m where "exec a s = push_snapshot s m" ..
    with r show ?thesis by (simp add: push_snapshot_simps nth_append)
  qed
qed

theorem published_snapshots_not_mutated_witness:
  "is_edit (Fill 0 0) \<and> cells example_state < length (heap example_state) \<and>
   heap (exec (Fill 0 0) example_state) ! cells example_state
     = heap example_state ! cells example_state \<and>
   cells (exec (Fill 0 0) example_state) = length (heap example_state)"
proof -
  have e: "is_edit (Fill 0 0)" by simp
  have r: "cells example_state < length (heap example_state)" by code_simp
  have n: "exec (Fill 0 0) example_state \<noteq> example_state" by code_simp
  from published_snapshots_not_mutated [OF e r] e r n show ?thesis by simp
qed

section \<open>Flood fill\<close>

lemma fill_inv_init: "fill_inv b m0 start (color_at m0 start) sel {} [start] {} m0"
  by (simp add: fill_inv_def)

lemma fill_inv_skip_visited:
  assumes "fill_inv b m0 start t sel D (p # q) vis m" and "key_of p \<in> vis"
  shows "fill_inv b m0 start t sel D q vis m"
proof -
  from assms have "p \<in> D" by (auto simp: fill_inv_def dest: key_of_inj)
  with assms(1) show ?thesis
    unfolding fill_inv_def by (elim conjE, intro conjI) (simp, simp, simp, simp, simp, metis set_ConsD, metis set_ConsD)
qed

lemma fill_inv_skip_out_of_bounds:
  assumes "fill_inv b m0 start t sel D (p # q) vis m" and "\<not> in_bounds b p"
  shows "fill_inv b m0 start t sel D q vis m"
  using assms unfolding fill_inv_def
  by (elim conjE, intro conjI) (simp, simp, simp, simp, simp, metis set_ConsD, metis set_ConsD)

lemma fill_inv_skip_color:
  assumes "fill_inv b m0 start t sel D (p # q) vis m" and "key_of p \<notin> vis"
    and "DAList.lookup m (key_of p) \<noteq> t"
  shows "fill_inv b m0 start t sel D q vis m"
proof -
  from assms have k: "key_of p \<notin> key_of ` D" by (simp add: fill_inv_def)
  with assms(1) have "DAList.lookup m (key_of p) = DAList.lookup m0 (key_of p)"
    by (simp add: fill_inv_def)
  with assms(3) have c: "color_at m0 p \<noteq> t" by (simp add: color_at_def)
  from assms(1) have s: "t = color_at m0 start" by (simp add: fill_inv_def)
  from assms(1) c s show ?thesis
    unfolding fill_inv_def
    by (elim conjE, intro conjI) (simp, simp, simp, simp, simp, metis set_ConsD, metis set_ConsD)
qed

lemma fill_inv_paint:
  assumes inv: "fill_inv b m0 start t sel D (p # q) vis m" and nv: "key_of p \<notin> vis"
    and ib: "in_bounds b p" and col: "DAList.lookup m (key_of p) = t"
  shows "fill_inv b m0 start t sel (insert p D)
           ((fst p, snd p - 1) # (fst p, snd p + 1) # (fst p - 1, snd p) # (fst p + 1, snd p) # q)
           (insert (key_of p) vis) (DAList.update (key_of p) sel m)"
proof -
  from inv have t: "t = color_at m0 start" and sub: "D \<subseteq> region b m0 start"
    and vis: "vis = key_of ` D"
    and lk: "\<And>k. DAList.lookup m k = (if k \<in> key_of ` D then Some sel else DAList.lookup m0 k)"
    and qd: "\<And>r. r \<in> set (p # q) \<Longrightarrow> r = start \<or> (\<exists>d \<in> D. r \<in> set (neighbours d))"
    and cl: "\<And>d n. d \<in> D \<Longrightarrow> n \<in> set (neighbours d) \<Longrightarrow>
               n \<in> D \<or> n \<in> set (p # q) \<or> \<not> in_bounds b n \<or> color_at m0 n \<noteq> t"
    and st: "start \<in> D \<or> start \<in> set (p # q) \<or> \<not> in_bounds b start"
    by (simp_all add: fill_inv_def) blast+
  let ?q' = "(fst p, snd p - 1) # (fst p, snd p + 1) # (fst p - 1, snd p) # (fst p + 1, snd p) # q"
  have nb: "set ?q' = set (neighbours p) \<union> set q"
    by (auto simp: neighbours_def)
  from nv vis lk [of "key_of p"] col have c0: "color_at m0 p = t"
    by (simp add: color_at_def)
  have pr: "p \<in> region b m0 start"
  proof -
    from qd [of p] have "p = start \<or> (\<exists>d \<in> D. p \<in> set (neighbours d))" by simp
    then show ?thesis
    proof
      assume "p = start"
      with ib show ?thesis by (simp add: region_start)
    next
      assume "\<exists>d \<in> D. p \<in> set (neighbours d)"
      then obtain d where d: "d \<in> D" "p \<in> set (neighbours d)" by blast
      with sub have "d \<in> region b m0 start" by blast
      from region_step [OF this d(2) ib] c0 t show ?thesis by simp
    qed
  qed
  have 1: "insert p D \<subseteq> region b m0 start" using pr sub by simp
  have 2: "insert (key_of p) vis = key_of ` insert p D" using vis by simp
  have 3: "\<forall>k. DAList.lookup (DAList.update (key_of p) sel m) k
      = (if k \<in> key_of ` insert p D then Some sel else DAList.lookup m0 k)"
    by (simp add: lookup_update lk)
  have 4: "\<forall>r \<in> set ?q'. r = start \<or> (\<exists>d \<in> insert p D. r \<in> set (neighbours d))"
  proof
    fix r assume "r \<in> set ?q'"
    then have "r \<in> set (neighbours p) \<or> r \<in> set q" unfolding nb by simp
    then show "r = start \<or> (\<exists>d \<in> insert p D. r \<in> set (neighbours d))"
    proof
      assume "r \<in> set (neighbours p)"
      then show ?thesis by blast
    next
      assume "r \<in> set q"
      then have "r \<in> set (p # q)" by simp
      from qd [OF this] show ?thesis by blast
    qed
  qed
  have 5: "\<forall>d \<in> insert p D. \<forall>n \<in> set (neighbours d).
      n \<in> insert p D \<or> n \<in> set ?q' \<or> \<not> in_bounds b n \<or> color_at m0 n \<noteq> t"
  proof (intro ballI)
    fix d n assume d: "d \<in> insert p D" and n: "n \<in> set (neighbours d)"
    show "n \<in> insert p D \<or> n \<in> set ?q' \<or> \<not> in_bounds b n \<or> color_at m0 n \<noteq> t"
    proof (cases "d = p")
      case True
      with n have "n \<in> set ?q'" unfolding nb by simp
      then show ?thesis by blast
    next
      case False
      with d have "d \<in> D" by simp
      from cl [OF this n] have "n \<in> D \<or> n = p \<or> n \<in> set q \<or> \<not> in_bounds b n \<or> color_at m0 n \<noteq> t"
        by auto
      then show ?thesis unfolding nb by blast
    qed
  qed
  have 6: "start \<in> insert p D \<or> start \<in> set ?q' \<or> \<not> in_bounds b start"
    using st unfolding nb by auto
  from t 1 2 3 4 5 6 show ?thesis unfolding fill_inv_def by blast
qed

lemma fill_inv_final:
  assumes inv: "fill_inv b m0 start t sel D [] vis m"
  shows "DAList.lookup m k = (if k \<in> key_of ` region b m0 start then Some sel else DAList.lookup m0 k)"
proof -
  from inv have t: "t = color_at m0 start" and sub: "D \<subseteq> region b m0 start"
    and lk: "\<And>k. DAList.lookup m k = (if k \<in> key_of ` D then Some sel else DAList.lookup m0 k)"
    and cl: "\<And>d n. d \<in> D \<Longrightarrow> n \<in> set (neighbours d) \<Longrightarrow>
               n \<in> D \<or> \<not> in_bounds b n \<or> color_at m0 n \<noteq> t"
    and st: "start \<in> D \<or> \<not> in_bounds b start"
    by (simp_all add: fill_inv_def) blast+
  have "r \<in> D" if "r \<in> region b m0 start" for r
    using that
  proof (induction rule: region.induct)
    case region_start
    with st show ?case by simp
  next
    case (region_step p q)
    from cl [OF region_step.IH region_step.hyps(2)] region_step.hyps(3,4) t
    show ?case by simp
  qed
  with sub have "D = region b m0 start" by blast
  with lk show ?thesis by simp
qed

lemma fill_loop_region:
  "fill_inv b m0 start t sel D q vis m \<Longrightarrow>
   DAList.lookup (fill_loop b t sel q vis m) k
     = (if k \<in> key_of ` region b m0 start then Some sel else DAList.lookup m0 k)"
proof (induction b t sel q vis m arbitrary: D rule: fill_loop.induct)
  case (1 b t sel vis m)
  from fill_inv_final [OF "1.prems"] show ?case by (simp add: fill_loop.simps)
next
  case (2 b t sel x y q vis m)
  note inv = "2.prems"
  have kp: "key_of (x, y) = makeKey x y" by (simp add: key_of_def)
  show ?case
  proof (cases "makeKey x y \<in> vis")
    case True
    then have "key_of (x, y) \<in> vis" by (simp add: kp)
    from "2.IH"(1) [OF True fill_inv_skip_visited [OF inv this]] True
    show ?thesis by (subst fill_loop.simps) simp
  next
    case nv: False
    show ?thesis
    proof (cases "x < 0 \<or> x \<ge> cols b \<or> y < 0 \<or> y \<ge> rows b")
      case True
      then have "\<not> in_bounds b (x, y)" by (auto simp: in_bounds_def)
      from "2.IH"(2) [OF nv True fill_inv_skip_out_of_bounds [OF inv this]] nv True
      show ?thesis by (subst fill_loop.simps) simp
    next
      case ib: False
      then have ib': "in_bounds b (x, y)" by (auto simp: in_bounds_def)
      from nv have nv': "key_of (x, y) \<notin> vis" by (simp add: kp)
      show ?thesis
      proof (cases "DAList.lookup m (makeKey x y) = t")
        case True
        then have "DAList.lookup m (key_of (x, y)) = t" by (simp add: kp)
        from fill_inv_paint [OF inv nv' ib' this]
        have "fill_inv b m0 start t sel (insert (x, y) D)
           ((x, y - 1) # (x, y + 1) # (x - 1, y) # (x + 1, y) # q)
           (insert (makeKey x y) vis) (DAList.update (makeKey x y) sel m)"
          by (simp add: kp)
        from "2.IH"(3) [OF nv ib True this] nv ib True
        show ?thesis by (subst fill_loop.simps) simp
      next
        case False
        then have "DAList.lookup m (key_of (x, y)) \<noteq> t" by (simp add: kp)
        from "2.IH"(4) [OF nv ib False fill_inv_skip_color [OF inv nv' this]] nv ib False
        show ?thesis by (subst fill_loop.simps) simp
      qed
    qed
  qed
qed

lemma region_sound: "p \<in> region b m start \<Longrightarrow> in_bounds b p \<and> color_at m p = color_at m start"
  by (induction rule: region.induct) simp_all

lemma fill_cells:
  "DAList.lookup (the_cells s) (makeKey x y) \<noteq> Some (selectedColorId s) \<Longrightarrow>
   DAList.lookup (the_cells (fill s x y)) k
     = (if k \<in> key_of ` region (board s) (the_cells s) (x, y) then Some (selectedColorId s)
        else DAList.lookup (the_cells s) k)"
  using fill_loop_region [OF fill_inv_init, of "board s" "the_cells s" "(x, y)" "selectedColorId s" k]
  by (simp add: fill_step push_snapshot_simps color_at_def key_of_def)

text \<open>
  C1. For an in-bounds start position: when the color at the start (possibly none)
  is the selected color, \<open>fill\<close> changes nothing and adds no history entry.
  Otherwise it recolors to the selected color exactly the 4-connected region of the
  start (the positions joined to it through in-bounds up/down/left/right neighbours of
  the start's original color), leaves every other position and every other key as it
  was, and appends one history entry for the whole fill.
\<close>

theorem fill_recolors_region:
  assumes "in_bounds (board s) (x, y)"
  shows "(color_at (the_cells s) (x, y) = Some (selectedColorId s) \<longrightarrow> fill s x y = s) \<and>
    (color_at (the_cells s) (x, y) \<noteq> Some (selectedColorId s) \<longrightarrow>
       (\<forall>p. color_at (the_cells (fill s x y)) p
          = (if p \<in> region (board s) (the_cells s) (x, y) then Some (selectedColorId s)
             else color_at (the_cells s) p)) \<and>
       (\<forall>k. k \<notin> range key_of \<longrightarrow>
          DAList.lookup (the_cells (fill s x y)) k = DAList.lookup (the_cells s) k) \<and>
       (x, y) \<in> region (board s) (the_cells s) (x, y) \<and>
       history (fill s x y) = take (historyPointer s + 1) (history s) @ [cells (fill s x y)] \<and>
       historyPointer (fill s x y) = length (history (fill s x y)) - 1)"
proof (intro conjI impI)
  assume "color_at (the_cells s) (x, y) = Some (selectedColorId s)"
  then show "fill s x y = s" by (simp add: fill_noop color_at_def key_of_def)
next
  assume "color_at (the_cells s) (x, y) \<noteq> Some (selectedColorId s)"
  then have ne: "DAList.lookup (the_cells s) (makeKey x y) \<noteq> Some (selectedColorId s)"
    by (simp add: color_at_def key_of_def)
  show "\<forall>p. color_at (the_cells (fill s x y)) p
          = (if p \<in> region (board s) (the_cells s) (x, y) then Some (selectedColorId s)
             else color_at (the_cells s) p)"
  proof
    fix p
    have "key_of p \<in> key_of ` region (board s) (the_cells s) (x, y)
        \<longleftrightarrow> p \<in> region (board s) (the_cells s) (x, y)"
      using key_of_inj by blast
    with fill_cells [OF ne, of "key_of p"]
    show "color_at (the_cells (fill s x y)) p
          = (if p \<in> region (board s) (the_cells s) (x, y) then Some (selectedColorId s)
             else color_at (the_cells s) p)"
      by (simp add: color_at_def)
  qed
  show "\<forall>k. k \<notin> range key_of \<longrightarrow>
          DAList.lookup (the_cells (fill s x y)) k = DAList.lookup (the_cells s) k"
  proof (intro allI impI)
    fix k :: CellKey assume "k \<notin> range key_of"
    then have "k \<notin> key_of ` region (board s) (the_cells s) (x, y)" by blast
    with fill_cells [OF ne, of k]
    show "DAList.lookup (the_cells (fill s x y)) k = DAList.lookup (the_cells s) k" by simp
  qed
  show "(x, y) \<in> region (board s) (the_cells s) (x, y)"
    using assms by (rule region_start)
  show "history (fill s x y) = take (historyPointer s + 1) (history s) @ [cells (fill s x y)]"
    by (simp add: fill_step [OF ne] push_snapshot_simps)
  show "historyPointer (fill s x y) = length (history (fill s x y)) - 1"
    by (simp add: fill_step [OF ne] push_snapshot_simps)
qed

theorem fill_recolors_region_witness:
  "in_bounds (board example_state) (0, 0) \<and>
   color_at (the_cells example_state) (0, 0) \<noteq> Some (selectedColorId example_state) \<and>
   (\<forall>p. color_at (the_cells (fill example_state 0 0)) p
      = (if p \<in> region (board example_state) (the_cells example_state) (0, 0) then Some ''blue''
         else color_at (the_cells example_state) p)) \<and>
   history (fill example_state 0 0) = [1, 2, 3] \<and>
   historyPointer (fill example_state 0 0) = 2"
proof -
  have b: "in_bounds (board example_state) (0, 0)" by code_simp
  have c: "color_at (the_cells example_state) (0, 0) \<noteq> Some (selectedColorId example_state)"
    by code_simp
  have sel: "selectedColorId example_state = ''blue''" by code_simp
  have h: "take (historyPointer example_state + 1) (history example_state) = [1, 2]" by code_simp
  have n: "cells (fill example_state 0 0) = 3" by code_simp
  from fill_recolors_region [OF b] c sel h n b show ?thesis by simp
qed

lemma fill_example:
  "entries (the_cells example_state) = [(''1,0'', ''red'')] \<and>
   entries (the_cells (fill example_state 0 0))
     = [(''1,0'', ''red''), (''0,0'', ''blue''), (''0,1'', ''blue''), (''1,1'', ''blue'')]"
  by code_simp

section \<open>setCell and positions outside the board\<close>

lemma target_value_push: "target_value (push_snapshot s m) = target_value s"
  by (simp add: target_value_def push_snapshot_simps)

text \<open>
  For the eraser, and for every selected color other than the empty string, \<open>setCell\<close>
  does what it aims at: nothing when the cell already has the target value; otherwise a
  new snapshot that differs from the old one at the key of \<open>(x, y)\<close> only, appended
  after the entries up to the pointer, with the pointer on it; and a second call is a
  no-op.
\<close>

lemma setCell_paint_or_erase:
  assumes "activeTool s = Eraser \<or> selectedColorId s \<noteq> []"
  shows "(DAList.lookup (the_cells s) (makeKey x y) = target_value s \<longrightarrow> setCell s x y = s) \<and>
    (DAList.lookup (the_cells s) (makeKey x y) \<noteq> target_value s \<longrightarrow>
       (\<forall>k. DAList.lookup (the_cells (setCell s x y)) k
          = (if k = makeKey x y then target_value s else DAList.lookup (the_cells s) k)) \<and>
       history (setCell s x y) = take (historyPointer s + 1) (history s) @ [cells (setCell s x y)] \<and>
       historyPointer (setCell s x y) = length (history (setCell s x y)) - 1) \<and>
    setCell (setCell s x y) x y = setCell s x y"
proof (cases "DAList.lookup (the_cells s) (makeKey x y) = target_value s")
  case True
  then show ?thesis by (simp add: setCell_noop)
next
  case False
  let ?m = "if activeTool s \<noteq> Eraser \<and> selectedColorId s \<noteq> []
      then DAList.update (makeKey x y) (selectedColorId s) (the_cells s)
      else DAList.delete (makeKey x y) (the_cells s)"
  have st: "setCell s x y = push_snapshot s ?m" using False by (rule setCell_step)
  have lk: "DAList.lookup ?m k = (if k = makeKey x y then target_value s else DAList.lookup (the_cells s) k)" for k
    using assms by (auto simp: target_value_def lookup_update)
  have "DAList.lookup (the_cells (setCell s x y)) (makeKey x y) = target_value (setCell s x y)"
    by (simp add: st push_snapshot_simps target_value_push lk)
  then have idem: "setCell (setCell s x y) x y = setCell s x y" by (rule setCell_noop)
  from False idem lk show ?thesis by (simp add: st push_snapshot_simps)
qed

text \<open>
  C2. \<open>setCell\<close> twice in a row with the same tool and color is meant to leave the
  grid and the length of the history as they are after the first call. With the empty
  string selected (\<open>setColor('')\<close>) and the pencil, each call takes the \<open>delete\<close>
  branch of \<open>if (newVal)\<close> and appends a snapshot with unchanged contents: the
  history grows from 1 to 2 to 3 entries and the cell stays empty. With \<open>red\<close>
  selected the second call is the no-op the code aims at.
\<close>

theorem setCell_empty_color_not_idempotent:
  "selectedColorId (run [SetColor []] (initial_state 0)) = [] \<and>
   length (history (run [SetColor []] (initial_state 0))) = 1 \<and>
   length (history (run [SetColor [], SetCell 0 0] (initial_state 0))) = 2 \<and>
   length (history (run [SetColor [], SetCell 0 0, SetCell 0 0] (initial_state 0))) = 3 \<and>
   DAList.lookup (the_cells (run [SetColor [], SetCell 0 0] (initial_state 0))) (makeKey 0 0) = None \<and>
   length (history (run [SetCell 0 0] (initial_state 0))) = 2 \<and>
   length (history (run [SetCell 0 0, SetCell 0 0] (initial_state 0))) = 2"
  by code_simp

lemma setCell_other_keys:
  "k \<noteq> makeKey x y \<Longrightarrow>
   DAList.lookup (the_cells (setCell s x y)) k = DAList.lookup (the_cells s) k"
  by (cases "DAList.lookup (the_cells s) (makeKey x y) = target_value s")
    (simp_all add: setCell_noop setCell_step push_snapshot_simps lookup_update)

lemma fill_loop_out_of_bounds:
  "\<not> in_bounds b (x, y) \<Longrightarrow> fill_loop b t sel [(x, y)] {} m = m"
  by (subst fill_loop.simps) (auto simp: in_bounds_def fill_loop.simps(1))

lemma fill_out_of_bounds: "\<not> in_bounds (board s) (x, y) \<Longrightarrow> the_cells (fill s x y) = the_cells s"
  by (cases "DAList.lookup (the_cells s) (makeKey x y) = Some (selectedColorId s)")
    (simp_all add: fill_noop fill_step push_snapshot_simps fill_loop_out_of_bounds)

text \<open>
  C6, as stated, fails: on the fresh store \<open>setCell(-1, 5)\<close> with the pencil stores
  the selected color under the key of the out-of-bounds position.
\<close>

theorem setCell_out_of_bounds_creates_key:
  "\<not> in_bounds (board (initial_state 0)) (- 1, 5) \<and>
   DAList.lookup (the_cells (initial_state 0)) (makeKey (- 1) 5) = None \<and>
   DAList.lookup (the_cells (setCell (initial_state 0) (- 1) 5)) (makeKey (- 1) 5) = Some ''red'' \<and>
   entries (the_cells (setCell (initial_state 0) (- 1) 5)) = [(''-1,5'', ''red'')]"
  by code_simp

text \<open>
  C6, amended. For a position outside the board, \<open>fill\<close> leaves the contents of the
  grid as they are and creates no key. \<open>setCell\<close> makes no bounds check (its callers
  do): with the eraser it leaves no value under the key of the position, with a paint
  tool and a non-empty selected color it stores that color there, and no other key
  changes.
\<close>

theorem out_of_bounds_fill_and_setCell:
  assumes "\<not> in_bounds (board s) (x, y)"
  shows "the_cells (fill s x y) = the_cells s \<and>
    (activeTool s = Eraser \<longrightarrow>
       DAList.lookup (the_cells (setCell s x y)) (makeKey x y) = None) \<and>
    (activeTool s \<noteq> Eraser \<and> selectedColorId s \<noteq> [] \<longrightarrow>
       DAList.lookup (the_cells (setCell s x y)) (makeKey x y) = Some (selectedColorId s)) \<and>
    (\<forall>k. k \<noteq> makeKey x y \<longrightarrow>
       DAList.lookup (the_cells (setCell s x y)) k = DAList.lookup (the_cells s) k)"
proof (intro conjI impI allI)
  show "the_cells (fill s x y) = the_cells s" using assms by (rule fill_out_of_bounds)
next
  assume e: "activeTool s = Eraser"
  show "DAList.lookup (the_cells (setCell s x y)) (makeKey x y) = None"
  proof (cases "DAList.lookup (the_cells s) (makeKey x y) = target_value s")
    case True
    with e show ?thesis by (simp add: setCell_noop target_value_def)
  next
    case False
    with e show ?thesis by (simp add: setCell_step push_snapshot_simps)
  qed
next
  assume p: "activeTool s \<noteq> Eraser \<and> selectedColorId s \<noteq> []"
  show "DAList.lookup (the_cells (setCell s x y)) (makeKey x y) = Some (selectedColorId s)"
  proof (cases "DAList.lookup (the_cells s) (makeKey x y) = target_value s")
    case True
    with p show ?thesis by (simp add: setCell_noop target_value_def)
  next
    case False
    with p show ?thesis by (simp add: setCell_step push_snapshot_simps)
  qed
next
  fix k assume "k \<noteq> makeKey x y"
  then show "DAList.lookup (the_cells (setCell s x y)) k = DAList.lookup (the_cells s) k"
    by (rule setCell_other_keys)
qed

theorem out_of_bounds_fill_and_setCell_witness:
  "\<not> in_bounds (board (initial_state 0)) (- 1, 5) \<and>
   the_cells (fill (initial_state 0) (- 1) 5) = the_cells (initial_state 0) \<and>
   DAList.lookup (the_cells (setCell (initial_state 0) (- 1) 5)) (makeKey (- 1) 5) = Some ''red'' \<and>
   DAList.lookup (the_cells (setCell (setTool (initial_state 0) Eraser) 40 0)) (makeKey 40 0) = None"
proof -
  have a: "\<not> in_bounds (board (initial_state 0)) (- 1, 5)" by code_simp
  have b: "\<not> in_bounds (board (setTool (initial_state 0) Eraser)) (40, 0)" by code_simp
  have c: "activeTool (initial_state 0) \<noteq> Eraser \<and> selectedColorId (initial_state 0) \<noteq> []"
    by code_simp
  have d: "selectedColorId (initial_state 0) = ''red''" by code_simp
  have e: "activeTool (setTool (initial_state 0) Eraser) = Eraser" by code_simp
  from out_of_bounds_fill_and_setCell [OF a] out_of_bounds_fill_and_setCell [OF b] a c d e
  show ?thesis by simp
qed

section \<open>loadPattern and exportPattern\<close>

text \<open>
  C10. \<open>loadPattern(exportPattern())\<close> leaves the grid as it is, in every state (so
  in every reachable one): each key has the same value before and after. The history
  is then the single loaded grid, with the pointer at 0.
\<close>

theorem load_export_round_trip:
  "(\<forall>k. DAList.lookup (the_cells (loadPattern s (exportPattern s uuid now))) k
        = DAList.lookup (the_cells s) k) \<and>
   history (loadPattern s (exportPattern s uuid now)) = [cells (loadPattern s (exportPattern s uuid now))] \<and>
   historyPointer (loadPattern s (exportPattern s uuid now)) = 0"
  by (simp add: loadPattern_step exportPattern_def mapToRecord_id the_cells_def)

text \<open>
  C7, as stated, fails: \<open>loadPattern\<close> skips nothing. The entry under the key
  \<open>oops\<close>, which decodes to no pair of integers, and the entry whose color is not in
  the palette are both in the loaded grid.
\<close>

theorem loadPattern_keeps_malformed_entries:
  "parseKey ''oops'' = (None, None) \<and>
   ''no-such-color'' \<notin> set (map color_id (palette (loadPattern (initial_state 0) malformed_pattern))) \<and>
   DAList.lookup (the_cells (loadPattern (initial_state 0) malformed_pattern)) ''oops'' = Some ''red'' \<and>
   DAList.lookup (the_cells (loadPattern (initial_state 0) malformed_pattern)) ''0,0'' = Some ''no-such-color'' \<and>
   DAList.lookup (the_cells (loadPattern (initial_state 0) malformed_pattern)) ''1,1'' = Some ''blue''"
  by code_simp

text \<open>
  C7, amended. \<open>loadPattern\<close> always succeeds and validates nothing: the loaded grid
  is the cell map of the pattern, entry for entry, whether or not an entry is well
  formed; the metadata is replaced, and the history is the single new grid with the
  pointer at 0.
\<close>

theorem loadPattern_loads_every_entry:
  "(\<forall>k. DAList.lookup (the_cells (loadPattern s p)) k = DAList.lookup (pattern_cells p) k) \<and>
   metadata (loadPattern s p) = pattern_metadata p \<and>
   history (loadPattern s p) = [cells (loadPattern s p)] \<and>
   historyPointer (loadPattern s p) = 0"
  by (simp add: loadPattern_step the_cells_def)

end
